theory Spec2Isabelle
  imports Complex_Main "HOL-Library.Multiset"
begin

section \<open>Ball tracker (terrain\_balls.py) and robot pose detector (robot\_detector.py)\<close>

subsection \<open>Data model\<close>

text \<open>
  A ball centre is the Python list \<open>[int(cx), int(cy)]\<close> of two unbounded integers.
  Python exceptions are values of \<open>error\<close>.
\<close>

type_synonym point = "int \<times> int"

datatype error = UnboundLocalError | IndexError | TypeError

text \<open>
  Class \<open>Ball\<close> (ball2.py, lines 5-17). The field \<open>id\<close> is called \<open>ball_id\<close> here,
  since \<open>id\<close> is the identity function of HOL.
\<close>

record ball =
  time0 :: int
  elapsedTime :: int
  score :: int
  position :: point
  ball_id :: int

definition Ball :: "int \<Rightarrow> int \<Rightarrow> point \<Rightarrow> ball" where
  "Ball i timeStamp X =
     \<lparr>time0 = timeStamp, elapsedTime = 0, score = 0, position = X, ball_id = i\<rparr>"

definition get_new_position :: "ball \<Rightarrow> point \<Rightarrow> ball" where
  "get_new_position b X = b\<lparr>position := X\<rparr>"

definition get_new_time :: "ball \<Rightarrow> int \<Rightarrow> ball" where
  "get_new_time b timeStamp = b\<lparr>elapsedTime := timeStamp - time0 b\<rparr>"

text \<open>
  Modelled from the spec: terrain\_balls.py imports \<open>Ball\<close> from the module \<open>ball\<close>, which is
  not among the sources, and calls its methods \<open>set_position\<close> and \<open>set_time\<close>. The spec says
  of a matched track: "assign that detection's coordinates as the track's new position";
  ball2.py holds the same class with the methods named \<open>get_new_position\<close> and
  \<open>get_new_time\<close>. \<open>set_position\<close> stores the new position and nothing else.
\<close>

definition set_position :: "ball \<Rightarrow> point \<Rightarrow> ball" where
  "set_position b X = get_new_position b X"

text \<open>
  Modelled from the spec: \<open>set_time\<close> of the missing module \<open>ball\<close>; the spec's track exposes
  the "elapsed time since creation", which \<open>get_new_time\<close> of ball2.py computes.
\<close>

definition set_time :: "ball \<Rightarrow> int \<Rightarrow> ball" where
  "set_time b timeStamp = get_new_time b timeStamp"

text \<open>
  Class \<open>TerrainBalls\<close> (terrain\_balls.py, lines 9-18): the fields the tracker reads and
  writes. \<open>score\<close>, \<open>terrain\<close>, \<open>Camera\<close> and \<open>path_\<close> belong to the camera, the display
  and the path planner and are left out.
\<close>

record TerrainBalls =
  time :: int
  balls :: "ball list"
  nb_balls :: nat

definition TerrainBalls_init :: "int \<Rightarrow> TerrainBalls" where
  "TerrainBalls_init timeStamp = \<lparr>time = timeStamp, balls = [], nb_balls = 0\<rparr>"

subsection \<open>Python list indexing\<close>

text \<open>
  \<open>xs[k]\<close> and \<open>xs.pop(k)\<close> count a negative index from the end and raise IndexError out
  of range. \<open>py_index\<close> resolves an index to a position of the list.
\<close>

definition py_index :: "'a list \<Rightarrow> int \<Rightarrow> nat option" where
  "py_index xs k =
     (let n = int (length xs); j = (if k < 0 then n + k else k)
      in if 0 \<le> j \<and> j < n then Some (nat j) else None)"

definition pop :: "'a list \<Rightarrow> nat \<Rightarrow> 'a list" where
  "pop xs j = take j xs @ drop (Suc j) xs"

subsection \<open>\<open>_find_match\<close> (terrain\_balls.py, lines 70-92)\<close>

text \<open>
  The loop of lines 85-91 over \<open>range(len(ball_centers))\<close>. Its state is the running
  minimum \<open>min\<close> and the local variable \<open>closest_ball\<close>, which is unbound (\<open>None\<close> here)
  until the first assignment of line 91. \<open>np.sqrt\<close> is the real square root: the
  floating-point root is monotone and exact at \<open>25000000\<close>, and the squared distances
  below it are whole numbers far enough apart, so the comparisons of line 89 are the same.
\<close>

fun closest_loop :: "point \<Rightarrow> point list \<Rightarrow> nat \<Rightarrow> real \<Rightarrow> nat option \<Rightarrow> nat option" where
  "closest_loop p [] i mn closest_ball = closest_ball"
| "closest_loop p (c # cs) i mn closest_ball =
     (let n = sqrt (real_of_int ((fst c - fst p)\<^sup>2 + (snd c - snd p)\<^sup>2))
      in if n < mn then closest_loop p cs (Suc i) n (Some i)
         else closest_loop p cs (Suc i) mn closest_ball)"

text \<open>
  \<open>_find_match\<close>: \<open>-1\<close> for an empty list; otherwise the loop starts from \<open>min = 5000\<close>
  and line 92 returns \<open>closest_ball\<close>, which raises UnboundLocalError when no iteration
  assigned it.
\<close>

definition find_match :: "ball \<Rightarrow> point list \<Rightarrow> error + int" where
  "find_match b ball_centers =
     (if length ball_centers = 0 then Inr (- 1)
      else case closest_loop (position b) ball_centers 0 5000 None of
             None \<Rightarrow> Inl UnboundLocalError
           | Some k \<Rightarrow> Inr (int k))"

subsection \<open>\<open>_detect_balls\<close> (terrain\_balls.py, lines 42-58) and \<open>_update\<close>\<close>

text \<open>
  Lines 43-47, the loop \<open>for i in range(self.nb_balls)\<close> over the list of indices:
  \<open>self.balls[i]\<close> raises IndexError out of range, a match \<open>k != -1\<close> moves the ball to
  \<open>ball_centers[k]\<close> and pops that centre.
\<close>

fun filter_loop :: "nat list \<Rightarrow> ball list \<Rightarrow> point list \<Rightarrow> error + (ball list \<times> point list)" where
  "filter_loop [] bs ball_centers = Inr (bs, ball_centers)"
| "filter_loop (i # js) bs ball_centers =
     (if length bs \<le> i then Inl IndexError
      else case find_match (bs ! i) ball_centers of
             Inl e \<Rightarrow> Inl e
           | Inr k \<Rightarrow>
               if k \<noteq> - 1 then
                 (case py_index ball_centers k of
                    None \<Rightarrow> Inl IndexError
                  | Some j \<Rightarrow>
                      filter_loop js (bs[i := set_position (bs ! i) (ball_centers ! j)])
                        (pop ball_centers j))
               else filter_loop js bs ball_centers)"

text \<open>Lines 51-54: one new ball per centre left, numbered by the incremented counter.\<close>

fun add_loop :: "point list \<Rightarrow> TerrainBalls \<Rightarrow> TerrainBalls" where
  "add_loop [] s = s"
| "add_loop (c # cs) s =
     add_loop cs
       (s\<lparr>nb_balls := nb_balls s + 1,
          balls := balls s @ [Ball (int (nb_balls s + 1)) (time s) c]\<rparr>)"

text \<open>
  \<open>_detect_balls\<close> from line 42 on, given the list \<open>ball_centers\<close> that lines 29-39 read
  from the image. Of the last loop (lines 57-68) only \<open>b.set_time(self.time)\<close> touches
  the tracker; path planning and drawing are outside.
\<close>

definition detect_balls :: "TerrainBalls \<Rightarrow> point list \<Rightarrow> error + TerrainBalls" where
  "detect_balls s ball_centers =
     (let n = length ball_centers
      in case filter_loop [0..<nb_balls s] (balls s) ball_centers of
           Inl e \<Rightarrow> Inl e
         | Inr (bs, rest) \<Rightarrow>
             let s1 = s\<lparr>balls := bs\<rparr>;
                 s2 = (if nb_balls s1 < n then add_loop rest s1 else s1)
             in Inr (s2\<lparr>balls := map (\<lambda>b. set_time b (time s2)) (balls s2)\<rparr>))"

text \<open>\<open>_update\<close> (lines 108-125): store the frame's time stamp, then detect.\<close>

definition update :: "TerrainBalls \<Rightarrow> point list \<Rightarrow> int \<Rightarrow> error + TerrainBalls" where
  "update s ball_centers timeStamp = detect_balls (s\<lparr>time := timeStamp\<rparr>) ball_centers"

text \<open>
  A sequence of frames, each the centres read from the image and its time stamp. An
  exception leaves the callback and ends the run.
\<close>

fun run :: "TerrainBalls \<Rightarrow> (point list \<times> int) list \<Rightarrow> error + TerrainBalls" where
  "run s [] = Inr s"
| "run s ((ball_centers, timeStamp) # frames) =
     (case update s ball_centers timeStamp of
        Inl e \<Rightarrow> Inl e
      | Inr s' \<Rightarrow> run s' frames)"

subsection \<open>The robot detector (robot\_detector.py)\<close>

text \<open>
  \<open>_detect_marker\<close> (lines 95-123). The contours that \<open>cv.findContours\<close> reads from the
  thresholded mask and \<open>cv.minEnclosingCircle\<close> are OpenCV's: the list of contours is an
  argument and the circle function a parameter. The result is the pair \<open>(cx, cy)\<close> or
  \<open>(None, None)\<close>.
\<close>

type_synonym marker = "real option \<times> real option"

definition detect_marker :: "('c \<Rightarrow> (real \<times> real) \<times> real) \<Rightarrow> 'c list \<Rightarrow> marker" where
  "detect_marker minEnclosingCircle contours =
     (let n_contours = length contours
      in if n_contours = 1 then
           (let cnt = contours ! 0;
                cx = fst (fst (minEnclosingCircle cnt));
                cy = snd (fst (minEnclosingCircle cnt))
            in (Some cx, Some cy))
         else (None, None))"

text \<open>
  \<open>np.arctan2\<close> on real numbers: the angle in \<open>(-\<pi>, \<pi>]\<close> of the vector \<open>(x, y)\<close>, and
  \<open>0\<close> for the null vector.
\<close>

definition arctan2 :: "real \<Rightarrow> real \<Rightarrow> real" where
  "arctan2 y x =
     (if 0 < x then arctan (y / x)
      else if x < 0 then (if 0 \<le> y then arctan (y / x) + pi else arctan (y / x) - pi)
      else if 0 < y then pi / 2
      else if y < 0 then - (pi / 2)
      else 0)"

text \<open>
  Class \<open>RobotDetector\<close> (lines 29-31): the fields \<open>_position\<close>, \<open>_heading\<close> and
  \<open>_timestamp\<close>; the image, the camera and the display flags are left out.
\<close>

record RobotDetector =
  rd_position :: "real \<times> real"
  rd_heading :: real
  rd_timestamp :: int

definition RobotDetector_init :: RobotDetector where
  "RobotDetector_init = \<lparr>rd_position = (0, 0), rd_heading = 0, rd_timestamp = 0\<rparr>"

text \<open>
  Lines 79-87 of \<open>_camera_data_updated_callback\<close>, given the two results of
  \<open>_detect_marker\<close>. The test reads the first component of each; subtracting from \<open>None\<close>
  raises TypeError. The second component of the result is the call of
  \<open>data_updated_callback\<close> with its three arguments, \<open>None\<close> when it is not called.
\<close>

definition pose_update ::
  "RobotDetector \<Rightarrow> marker \<Rightarrow> marker \<Rightarrow> int
     \<Rightarrow> error + (RobotDetector \<times> ((real \<times> real) \<times> real \<times> int) option)" where
  "pose_update s front_m_pos rear_m_pos timestamp =
     (if fst front_m_pos \<noteq> None \<and> fst rear_m_pos \<noteq> None then
        (case (snd front_m_pos, snd rear_m_pos) of
           (Some fy, Some ry) \<Rightarrow>
             let s1 = s\<lparr>rd_heading :=
                        arctan2 (fy - ry) (the (fst front_m_pos) - the (fst rear_m_pos))\<rparr>;
                 s2 = s1\<lparr>rd_position := (the (fst rear_m_pos), ry)\<rparr>;
                 s3 = s2\<lparr>rd_timestamp := timestamp\<rparr>
             in Inr (s3, Some (rd_position s3, rd_heading s3, rd_timestamp s3))
         | _ \<Rightarrow> Inl TypeError)
      else Inr (s, None))"

text \<open>
  \<open>_camera_data_updated_callback\<close> (lines 41-93): the front marker is read from the
  contours of the black mask, the rear marker from those of the blue mask.
\<close>

definition camera_data_updated_callback ::
  "('c \<Rightarrow> (real \<times> real) \<times> real) \<Rightarrow> RobotDetector \<Rightarrow> 'c list \<Rightarrow> 'c list \<Rightarrow> int
     \<Rightarrow> error + (RobotDetector \<times> ((real \<times> real) \<times> real \<times> int) option)" where
  "camera_data_updated_callback minEnclosingCircle s black_contours blue_contours timestamp =
     (let front_m_pos = detect_marker minEnclosingCircle black_contours;
          rear_m_pos = detect_marker minEnclosingCircle blue_contours
      in pose_update s front_m_pos rear_m_pos timestamp)"

definition get_heading :: "RobotDetector \<Rightarrow> real" where
  "get_heading s = rd_heading s"

definition get_position :: "RobotDetector \<Rightarrow> real \<times> real" where
  "get_position s = rd_position s"

text \<open>A sequence of camera frames: the contours of the two masks and the time stamp.\<close>

fun rd_run ::
  "('c \<Rightarrow> (real \<times> real) \<times> real) \<Rightarrow> RobotDetector \<Rightarrow> ('c list \<times> 'c list \<times> int) list
     \<Rightarrow> error + RobotDetector" where
  "rd_run mec s [] = Inr s"
| "rd_run mec s ((black_contours, blue_contours, timestamp) # frames) =
     (case camera_data_updated_callback mec s black_contours blue_contours timestamp of
        Inl e \<Rightarrow> Inl e
      | Inr (s', _) \<Rightarrow> rd_run mec s' frames)"

subsection \<open>Notions the properties are stated in\<close>

text \<open>The squared distance of two centres and their Euclidean distance.\<close>

definition sq_dist :: "point \<Rightarrow> point \<Rightarrow> int" where
  "sq_dist c p = (fst c - fst p)\<^sup>2 + (snd c - snd p)\<^sup>2"

definition euclid :: "point \<Rightarrow> point \<Rightarrow> real" where
  "euclid c p = sqrt (real_of_int (sq_dist c p))"

text \<open>
  The loop of \<open>_find_match\<close> on squared distances: the square root is strictly monotone,
  so comparing the distances is comparing their squares, and the start value \<open>5000\<close>
  becomes \<open>25000000\<close>. It is proved equal to \<open>closest_loop\<close> below and evaluates on
  integers.
\<close>

fun closest_sq :: "point \<Rightarrow> point list \<Rightarrow> nat \<Rightarrow> int \<Rightarrow> nat option \<Rightarrow> nat option" where
  "closest_sq p [] i m2 closest_ball = closest_ball"
| "closest_sq p (c # cs) i m2 closest_ball =
     (if sq_dist c p < m2 then closest_sq p cs (Suc i) (sq_dist c p) (Some i)
      else closest_sq p cs (Suc i) m2 closest_ball)"

text \<open>
  The matching loop as a recursion over the balls in list order, each ball taking its
  match from the centres the earlier balls left. It is proved equal to \<open>filter_loop\<close>
  over \<open>range(len(balls))\<close> below.
\<close>

fun match_in_order :: "ball list \<Rightarrow> point list \<Rightarrow> error + (ball list \<times> point list)" where
  "match_in_order [] cs = Inr ([], cs)"
| "match_in_order (b # bs) cs =
     (case find_match b cs of
        Inl e \<Rightarrow> Inl e
      | Inr k \<Rightarrow>
          if k \<noteq> - 1 then
            (case py_index cs k of
               None \<Rightarrow> Inl IndexError
             | Some j \<Rightarrow>
                 (case match_in_order bs (pop cs j) of
                    Inl e \<Rightarrow> Inl e
                  | Inr (bs', cs') \<Rightarrow> Inr (set_position b (cs ! j) # bs', cs')))
          else
            (case match_in_order bs cs of
               Inl e \<Rightarrow> Inl e
             | Inr (bs', cs') \<Rightarrow> Inr (b # bs', cs')))"

text \<open>
  The invariant of the tracker: the counter is the number of balls, and the balls carry
  the identifiers \<open>1, 2, ...\<close> in list order.
\<close>

definition tracker_inv :: "TerrainBalls \<Rightarrow> bool" where
  "tracker_inv s \<longleftrightarrow>
     nb_balls s = length (balls s) \<and>
     map ball_id (balls s) = map int [1..<Suc (length (balls s))]"

text \<open>The number of balls whose position after an update equals their position before.\<close>

definition unchanged_positions :: "ball list \<Rightarrow> ball list \<Rightarrow> nat" where
  "unchanged_positions bs bs' =
     length (filter (\<lambda>(b, b'). position b' = position b) (zip bs bs'))"

text \<open>Two balls that differ in their position at most.\<close>

definition same_but_position :: "ball \<Rightarrow> ball \<Rightarrow> bool" where
  "same_but_position b b' \<longleftrightarrow> b' = b\<lparr>position := position b'\<rparr>"

text \<open>
  The balls that the loop of lines 51-54 appends when the counter stands at \<open>m\<close>: one
  per centre, numbered from \<open>m + 1\<close>.
\<close>

fun new_balls :: "nat \<Rightarrow> int \<Rightarrow> point list \<Rightarrow> ball list" where
  "new_balls m t [] = []"
| "new_balls m t (c # cs) = Ball (int (m + 1)) t c # new_balls (Suc m) t cs"

subsection \<open>Example states\<close>

text \<open>
  The tracker after a first frame at time \<open>1\<close> with the centre \<open>(5, 5)\<close>, after a first
  frame with the centres \<open>(5, 5)\<close> and \<open>(50, 50)\<close>, and the latter after a second frame
  at time \<open>2\<close> with the centre \<open>(5, 5)\<close> alone.
\<close>

definition one_ball :: TerrainBalls where
  "one_ball = \<lparr>time = 1, balls = [Ball 1 1 (5, 5)], nb_balls = 1\<rparr>"

definition two_balls :: TerrainBalls where
  "two_balls = \<lparr>time = 1, balls = [Ball 1 1 (5, 5), Ball 2 1 (50, 50)], nb_balls = 2\<rparr>"

definition two_balls_after :: TerrainBalls where
  "two_balls_after =
     \<lparr>time = 2,
      balls = [\<lparr>time0 = 1, elapsedTime = 1, score = 0, position = (5, 5), ball_id = 1\<rparr>,
               \<lparr>time0 = 1, elapsedTime = 1, score = 0, position = (50, 50), ball_id = 2\<rparr>],
      nb_balls = 2\<rparr>"

text \<open>
  The scenario of the spec: the tracker after an empty frame at time \<open>1\<close> and a frame at
  time \<open>2\<close> with the centre \<open>(5, 5)\<close>, and after a third frame at time \<open>3\<close> with the
  centres \<open>(6, 5)\<close> and \<open>(50, 50)\<close>.
\<close>

definition frame2_state :: TerrainBalls where
  "frame2_state = \<lparr>time = 2, balls = [Ball 1 2 (5, 5)], nb_balls = 1\<rparr>"

definition frame3_state :: TerrainBalls where
  "frame3_state =
     \<lparr>time = 3,
      balls = [\<lparr>time0 = 2, elapsedTime = 1, score = 0, position = (6, 5), ball_id = 1\<rparr>,
               Ball 2 3 (50, 50)],
      nb_balls = 2\<rparr>"

text \<open>
  A stand-in for \<open>cv.minEnclosingCircle\<close> in the examples: a contour is given by the
  centre of its circle, of radius \<open>1\<close>.
\<close>

definition circle_of_centre :: "real \<times> real \<Rightarrow> (real \<times> real) \<times> real" where
  "circle_of_centre c = (c, 1)"

section \<open>Properties of the tracker\<close>

subsection \<open>The search of \<open>_find_match\<close>\<close>

text \<open>
  The loop on square roots and the loop on squares take the same branches, so
  \<open>find_match\<close> evaluates on integers.
\<close>

lemma sq_dist_nonneg: "0 \<le> sq_dist c p"
  by (simp add: sq_dist_def)

lemma closest_loop_sq:
  "0 \<le> m2 \<Longrightarrow> closest_loop p cs i (sqrt (real_of_int m2)) cb = closest_sq p cs i m2 cb"
proof (induction cs arbitrary: i m2 cb)
  case Nil
  then show ?case by simp
next
  case (Cons c cs)
  have lt: "sqrt (real_of_int (sq_dist c p)) < sqrt (real_of_int m2) \<longleftrightarrow> sq_dist c p < m2"
    by simp
  show ?case
    using Cons.IH [of "sq_dist c p" "Suc i" "Some i"] Cons.IH [OF Cons.prems, of "Suc i" cb]
      lt sq_dist_nonneg [of c p]
    by (simp add: sq_dist_def Let_def del: real_sqrt_less_iff)
qed

lemma sqrt_5000: "sqrt (real_of_int 25000000) = 5000"
  by (rule real_sqrt_unique) simp_all

lemma find_match_code:
  "find_match b cs =
     (if length cs = 0 then Inr (- 1)
      else case closest_sq (position b) cs 0 25000000 None of
             None \<Rightarrow> Inl UnboundLocalError
           | Some k \<Rightarrow> Inr (int k))"
  using closest_loop_sq [of 25000000 "position b" cs 0 None]
  by (simp add: find_match_def sqrt_5000 del: of_int_numeral)

lemma closest_sq_cases:
  "(closest_sq p cs i m cb = cb \<and> (\<forall>c\<in>set cs. m \<le> sq_dist c p)) \<or>
   (\<exists>j<length cs. closest_sq p cs i m cb = Some (i + j) \<and> sq_dist (cs ! j) p < m \<and>
       (\<forall>l<length cs. sq_dist (cs ! j) p \<le> sq_dist (cs ! l) p) \<and>
       (\<forall>l<j. sq_dist (cs ! j) p < sq_dist (cs ! l) p))"
proof (induction cs arbitrary: i m cb)
  case Nil
  then show ?case by simp
next
  case (Cons c cs)
  show ?case
  proof (cases "sq_dist c p < m")
    case True
    from Cons.IH [of "Suc i" "sq_dist c p" "Some i"]
    show ?thesis
    proof (elim disjE exE conjE)
      assume a: "closest_sq p cs (Suc i) (sq_dist c p) (Some i) = Some i"
        "\<forall>c'\<in>set cs. sq_dist c p \<le> sq_dist c' p"
      have "\<forall>l<length (c # cs). sq_dist ((c # cs) ! 0) p \<le> sq_dist ((c # cs) ! l) p"
        using a(2) by (auto simp: nth_Cons split: nat.splits)
      with a True show ?thesis
        by (intro disjI2 exI [of _ 0]) simp
    next
      fix j assume a: "j < length cs"
        "closest_sq p cs (Suc i) (sq_dist c p) (Some i) = Some (Suc i + j)"
        "sq_dist (cs ! j) p < sq_dist c p"
        "\<forall>l<length cs. sq_dist (cs ! j) p \<le> sq_dist (cs ! l) p"
        "\<forall>l<j. sq_dist (cs ! j) p < sq_dist (cs ! l) p"
      have 1: "\<forall>l<length (c # cs). sq_dist ((c # cs) ! Suc j) p \<le> sq_dist ((c # cs) ! l) p"
        using a(3,4) by (auto simp: nth_Cons split: nat.splits)
      have 2: "\<forall>l<Suc j. sq_dist ((c # cs) ! Suc j) p < sq_dist ((c # cs) ! l) p"
        using a(3,5) by (auto simp: nth_Cons split: nat.splits)
      from a True 1 2 show ?thesis
        by (intro disjI2 exI [of _ "Suc j"]) simp
    qed
  next
    case False
    from Cons.IH [of "Suc i" m cb]
    show ?thesis
    proof (elim disjE exE conjE)
      assume a: "closest_sq p cs (Suc i) m cb = cb" "\<forall>c'\<in>set cs. m \<le> sq_dist c' p"
      with False show ?thesis by simp
    next
      fix j assume a: "j < length cs"
        "closest_sq p cs (Suc i) m cb = Some (Suc i + j)"
        "sq_dist (cs ! j) p < m"
        "\<forall>l<length cs. sq_dist (cs ! j) p \<le> sq_dist (cs ! l) p"
        "\<forall>l<j. sq_dist (cs ! j) p < sq_dist (cs ! l) p"
      have 1: "\<forall>l<length (c # cs). sq_dist ((c # cs) ! Suc j) p \<le> sq_dist ((c # cs) ! l) p"
        using a(3,4) False by (auto simp: nth_Cons split: nat.splits)
      have 2: "\<forall>l<Suc j. sq_dist ((c # cs) ! Suc j) p < sq_dist ((c # cs) ! l) p"
        using a(3,5) False by (auto simp: nth_Cons split: nat.splits)
      from a False 1 2 show ?thesis
        by (intro disjI2 exI [of _ "Suc j"]) simp
    qed
  qed
qed

text \<open>What \<open>find_match\<close> returns: the three outcomes.\<close>

lemma find_match_empty: "find_match b [] = Inr (- 1)"
  by (simp add: find_match_def)

lemma find_match_Inl:
  "find_match b cs = Inl e \<longleftrightarrow>
     e = UnboundLocalError \<and> cs \<noteq> [] \<and> (\<forall>c\<in>set cs. 25000000 \<le> sq_dist c (position b))"
proof -
  have "\<not> (\<forall>c\<in>set cs. 25000000 \<le> sq_dist c (position b))"
    if "j < length cs" "sq_dist (cs ! j) (position b) < 25000000" for j
    using that by (auto simp: not_le intro!: bexI [of _ "cs ! j"])
  then show ?thesis
    using closest_sq_cases [of "position b" cs 0 25000000 None]
    by (auto simp: find_match_code split: option.splits)
qed

lemma find_match_Inr:
  "find_match b cs = Inr k \<Longrightarrow>
     (cs = [] \<and> k = - 1) \<or>
     (0 \<le> k \<and> nat k < length cs \<and> sq_dist (cs ! nat k) (position b) < 25000000 \<and>
      (\<forall>l<length cs. sq_dist (cs ! nat k) (position b) \<le> sq_dist (cs ! l) (position b)) \<and>
      (\<forall>l<nat k. sq_dist (cs ! nat k) (position b) < sq_dist (cs ! l) (position b)))"
  using closest_sq_cases [of "position b" cs 0 25000000 None]
  by (auto simp: find_match_code split: option.splits if_splits)

lemma find_match_index:
  "find_match b cs = Inr k \<Longrightarrow> k \<noteq> - 1 \<Longrightarrow> py_index cs k = Some (nat k) \<and> nat k < length cs"
  by (drule find_match_Inr) (auto simp: py_index_def Let_def)

lemma find_match_nonempty:
  "cs \<noteq> [] \<Longrightarrow> find_match b cs \<noteq> Inr (- 1)"
  using find_match_Inr [of b cs "- 1"] by auto

lemma mset_pop: "j < length cs \<Longrightarrow> add_mset (cs ! j) (mset (pop cs j)) = mset cs"
  unfolding pop_def
  by (metis append_take_drop_id Cons_nth_drop_Suc mset.simps(2) mset_append union_mset_add_mset_right)

lemma length_pop: "j < length cs \<Longrightarrow> length (pop cs j) = length cs - 1"
  by (simp add: pop_def)

lemma filter_loop_match_in_order:
  "i \<le> length bs \<Longrightarrow>
   filter_loop [i..<length bs] bs cs =
     (case match_in_order (drop i bs) cs of
        Inl e \<Rightarrow> Inl e
      | Inr (ds, cs') \<Rightarrow> Inr (take i bs @ ds, cs'))"
proof (induction "length bs - i" arbitrary: i bs cs)
  case 0
  then show ?case by simp
next
  case (Suc n)
  then have i: "i < length bs" by simp
  have upt: "[i..<length bs] = i # [Suc i..<length bs]"
    using i by (simp add: upt_conv_Cons)
  have dr: "drop i bs = bs ! i # drop (Suc i) bs"
    using i by (simp add: Cons_nth_drop_Suc)
  show ?case
  proof (cases "find_match (bs ! i) cs")
    case (Inl e)
    then show ?thesis using i by (simp add: upt dr)
  next
    case (Inr k)
    show ?thesis
    proof (cases "k = - 1")
      case True
      have "n = length bs - Suc i" using Suc.hyps(2) by simp
      from Suc.hyps(1) [OF this, of cs] i
      have "filter_loop [Suc i..<length bs] bs cs =
         (case match_in_order (drop (Suc i) bs) cs of
            Inl e \<Rightarrow> Inl e
          | Inr (ds, cs') \<Rightarrow> Inr (take (Suc i) bs @ ds, cs'))" by simp
      then show ?thesis
        using i Inr True
        by (simp add: upt dr take_Suc_conv_app_nth split: sum.splits)
    next
      case False
      from find_match_index [OF Inr False]
      have j: "py_index cs k = Some (nat k)" by simp
      let ?bs1 = "bs[i := set_position (bs ! i) (cs ! nat k)]"
      have "n = length ?bs1 - Suc i" using Suc.hyps(2) by simp
      from Suc.hyps(1) [OF this, of "pop cs (nat k)"] i
      have "filter_loop [Suc i..<length bs] ?bs1 (pop cs (nat k)) =
         (case match_in_order (drop (Suc i) bs) (pop cs (nat k)) of
            Inl e \<Rightarrow> Inl e
          | Inr (ds, cs') \<Rightarrow> Inr (take i bs @ set_position (bs ! i) (cs ! nat k) # ds, cs'))"
        by (simp add: take_Suc_conv_app_nth split: sum.splits)
      then show ?thesis
        using i Inr False j
        by (simp add: upt dr split: sum.splits)
    qed
  qed
qed

subsection \<open>The matching phase\<close>

lemma match_in_order_empty: "match_in_order bs [] = Inr (bs, [])"
  by (induction bs) (simp_all add: find_match_empty)

lemma match_in_order_step:
  assumes "match_in_order (b # bs) cs = Inr (ds, cs')" and "cs \<noteq> []"
  shows "\<exists>j bs'. j < length cs \<and> find_match b cs = Inr (int j) \<and>
           match_in_order bs (pop cs j) = Inr (bs', cs') \<and>
           ds = set_position b (cs ! j) # bs'"
proof -
  from assms(1) obtain k where k: "find_match b cs = Inr k"
    by (cases "find_match b cs") auto
  with assms(2) have k1: "k \<noteq> - 1"
    using find_match_nonempty by blast
  from find_match_index [OF k k1]
  have j: "py_index cs k = Some (nat k)" "nat k < length cs" by simp_all
  from find_match_Inr [OF k] k1 have "0 \<le> k" by auto
  then have "int (nat k) = k" by simp
  with assms(1) k k1 j show ?thesis
    by (intro exI [of _ "nat k"]) (auto split: sum.splits)
qed

lemma match_in_order_length:
  "match_in_order bs cs = Inr (bs', cs') \<Longrightarrow>
     length bs' = length bs \<and> length cs' = length cs - length bs"
proof (induction bs arbitrary: cs bs' cs')
  case Nil
  then show ?case by simp
next
  case (Cons b bs)
  show ?case
  proof (cases "cs = []")
    case True
    with Cons.prems show ?thesis by (simp add: match_in_order_empty)
  next
    case False
    from match_in_order_step [OF Cons.prems False]
    obtain j ds where j: "j < length cs" "match_in_order bs (pop cs j) = Inr (ds, cs')"
      "bs' = set_position b (cs ! j) # ds" by blast
    from Cons.IH [OF j(2)] j(1,3) show ?thesis
      by (simp add: length_pop)
  qed
qed

lemma match_in_order_tail:
  "match_in_order bs cs = Inr (bs', cs') \<Longrightarrow> drop (length cs) bs' = drop (length cs) bs"
proof (induction bs arbitrary: cs bs' cs')
  case Nil
  then show ?case by simp
next
  case (Cons b bs)
  show ?case
  proof (cases "cs = []")
    case True
    with Cons.prems show ?thesis by (simp add: match_in_order_empty)
  next
    case False
    from match_in_order_step [OF Cons.prems False]
    obtain j ds where j: "j < length cs" "match_in_order bs (pop cs j) = Inr (ds, cs')"
      "bs' = set_position b (cs ! j) # ds" by blast
    from False obtain n where n: "length cs = Suc n" by (cases cs) auto
    from Cons.IH [OF j(2)] j(1,3) n show ?thesis
      by (simp add: length_pop)
  qed
qed

lemma match_in_order_mset:
  "match_in_order bs cs = Inr (bs', cs') \<Longrightarrow>
     mset (map position (take (length cs) bs')) + mset cs' = mset cs"
proof (induction bs arbitrary: cs bs' cs')
  case Nil
  then show ?case by simp
next
  case (Cons b bs)
  show ?case
  proof (cases "cs = []")
    case True
    with Cons.prems show ?thesis by (simp add: match_in_order_empty)
  next
    case False
    from match_in_order_step [OF Cons.prems False]
    obtain j ds where j: "j < length cs" "match_in_order bs (pop cs j) = Inr (ds, cs')"
      "bs' = set_position b (cs ! j) # ds" by blast
    from False obtain n where n: "length cs = Suc n" by (cases cs) auto
    have "position (set_position b (cs ! j)) = cs ! j"
      by (simp add: set_position_def get_new_position_def)
    with Cons.IH [OF j(2)] j(1,3) n mset_pop [OF j(1)] show ?thesis
      by (simp add: length_pop)
  qed
qed

text \<open>The matching phase writes positions only.\<close>

lemma match_in_order_frame:
  "match_in_order bs cs = Inr (bs', cs') \<Longrightarrow> list_all2 same_but_position bs bs'"
proof (induction bs arbitrary: cs bs' cs')
  case Nil
  then show ?case by simp
next
  case (Cons b bs)
  show ?case
  proof (cases "cs = []")
    case True
    with Cons.prems show ?thesis
      by (simp add: match_in_order_empty list_all2_conv_all_nth same_but_position_def)
  next
    case False
    from match_in_order_step [OF Cons.prems False]
    obtain j ds where j: "j < length cs" "match_in_order bs (pop cs j) = Inr (ds, cs')"
      "bs' = set_position b (cs ! j) # ds" by blast
    from Cons.IH [OF j(2)] j(3) show ?thesis
      by (simp add: same_but_position_def set_position_def get_new_position_def)
  qed
qed

subsection \<open>The growth phase and the whole update\<close>

lemma add_loop_balls:
  "balls (add_loop cs s) = balls s @ new_balls (nb_balls s) (time s) cs \<and>
   nb_balls (add_loop cs s) = nb_balls s + length cs \<and>
   time (add_loop cs s) = time s"
  by (induction cs arbitrary: s) simp_all

lemma length_new_balls: "length (new_balls m t cs) = length cs"
  by (induction cs arbitrary: m) simp_all

lemma new_balls_ids: "map ball_id (new_balls m t cs) = map int [Suc m..<Suc m + length cs]"
  by (induction cs arbitrary: m) (simp_all add: Ball_def upt_conv_Cons del: upt_Suc)

lemma new_balls_positions: "map position (new_balls m t cs) = cs"
  by (induction cs arbitrary: m) (simp_all add: Ball_def)

lemma new_balls_time0: "b \<in> set (new_balls m t cs) \<Longrightarrow> time0 b = t"
  by (induction cs arbitrary: m) (auto simp: Ball_def)

lemma set_time_fields:
  "ball_id (set_time b t) = ball_id b" "position (set_time b t) = position b"
  "time0 (set_time b t) = time0 b" "elapsedTime (set_time b t) = t - time0 b"
  by (simp_all add: set_time_def get_new_time_def)

text \<open>The whole update in terms of the matching in list order.\<close>

lemma filter_loop_all: "filter_loop [0..<length bs] bs cs = match_in_order bs cs"
  using filter_loop_match_in_order [of 0 bs cs]
  by (simp split: sum.splits prod.splits)

lemma update_Inr:
  assumes "update s cs t = Inr s'" and "nb_balls s = length (balls s)"
  shows "\<exists>bs' rest. match_in_order (balls s) cs = Inr (bs', rest) \<and>
           time s' = t \<and>
           balls s' = map (\<lambda>b. set_time b t)
              (bs' @ (if length (balls s) < length cs
                      then new_balls (length (balls s)) t rest else [])) \<and>
           nb_balls s' = (if length (balls s) < length cs
                          then length (balls s) + length rest else length (balls s))"
proof -
  have fl: "filter_loop [0..<nb_balls (s\<lparr>time := t\<rparr>)] (balls (s\<lparr>time := t\<rparr>)) cs =
     match_in_order (balls s) cs"
    using filter_loop_all [of "balls s" cs] assms(2) by simp
  from assms(1) obtain bs' rest where m: "match_in_order (balls s) cs = Inr (bs', rest)"
    unfolding update_def detect_balls_def Let_def fl
    by (cases "match_in_order (balls s) cs") auto
  from assms(1) show ?thesis
    unfolding update_def detect_balls_def Let_def fl m
    using assms(2) by (auto simp: add_loop_balls)
qed

lemma update_Inl:
  assumes "nb_balls s = length (balls s)"
  shows "update s cs t = Inl e \<longleftrightarrow> match_in_order (balls s) cs = Inl e"
proof -
  have fl: "filter_loop [0..<nb_balls (s\<lparr>time := t\<rparr>)] (balls (s\<lparr>time := t\<rparr>)) cs =
     match_in_order (balls s) cs"
    using filter_loop_all [of "balls s" cs] assms by simp
  show ?thesis
    unfolding update_def detect_balls_def Let_def fl
    by (auto split: sum.splits)
qed

lemma match_in_order_ids:
  "match_in_order bs cs = Inr (bs', cs') \<Longrightarrow>
     map ball_id bs' = map ball_id bs \<and> map time0 bs' = map time0 bs"
proof -
  assume "match_in_order bs cs = Inr (bs', cs')"
  then have "list_all2 same_but_position bs bs'" by (rule match_in_order_frame)
  then show ?thesis
  proof (induction rule: list_all2_induct)
    case Nil
    then show ?case by simp
  next
    case (Cons b bs b' bs')
    from Cons(1) have "ball_id b' = ball_id b \<and> time0 b' = time0 b"
      unfolding same_but_position_def by (metis ball.select_convs(1,5) ball.surjective ball.update_convs(4))
    with Cons show ?case by simp
  qed
qed

text \<open>The invariant holds initially and every update keeps it.\<close>

lemma update_inv:
  assumes "update s cs t = Inr s'" and "tracker_inv s"
  shows "tracker_inv s'"
proof -
  from assms(2) have nb: "nb_balls s = length (balls s)"
    and ids: "map ball_id (balls s) = map int [1..<Suc (length (balls s))]"
    by (simp_all add: tracker_inv_def)
  from update_Inr [OF assms(1) nb] obtain bs' rest where
    m: "match_in_order (balls s) cs = Inr (bs', rest)" and
    b: "balls s' = map (\<lambda>b. set_time b t)
              (bs' @ (if length (balls s) < length cs
                      then new_balls (length (balls s)) t rest else []))" and
    n: "nb_balls s' = (if length (balls s) < length cs
                          then length (balls s) + length rest else length (balls s))"
    by blast
  from match_in_order_length [OF m] have len: "length bs' = length (balls s)" by simp
  from match_in_order_ids [OF m] ids
  have ids': "map ball_id bs' = map int [1..<Suc (length (balls s))]" by simp
  have st: "ball_id \<circ> (\<lambda>b. set_time b t) = ball_id"
    by (simp add: fun_eq_iff set_time_fields)
  show ?thesis
  proof (cases "length (balls s) < length cs")
    case True
    have "[1..<Suc (length (balls s) + length rest)] =
          [1..<Suc (length (balls s))] @ [Suc (length (balls s))..<Suc (length (balls s)) + length rest]"
      by (metis Suc_eq_plus1 add_Suc le_add2 upt_add_eq_append)
    with True b n len ids' show ?thesis
      unfolding tracker_inv_def
      by (simp add: st new_balls_ids length_new_balls del: upt_Suc)
  next
    case False
    with b n len ids' show ?thesis
      unfolding tracker_inv_def by (simp add: st del: upt_Suc)
  qed
qed

lemma init_inv: "tracker_inv (TerrainBalls_init t0)"
  by (simp add: tracker_inv_def TerrainBalls_init_def)

lemma run_inv: "run s frames = Inr s' \<Longrightarrow> tracker_inv s \<Longrightarrow> tracker_inv s'"
proof (induction frames arbitrary: s)
  case Nil
  then show ?case by simp
next
  case (Cons f frames)
  obtain cs t where f: "f = (cs, t)" by (cases f)
  from Cons.prems(1) obtain s1 where s1: "update s cs t = Inr s1" "run s1 frames = Inr s'"
    by (auto simp: f split: sum.splits)
  from Cons.IH [OF s1(2) update_inv [OF s1(1) Cons.prems(2)]] show ?case .
qed

subsection \<open>Evaluation, distances and when an update returns\<close>

text \<open>The equations that evaluate an update on concrete frames.\<close>

lemmas tracker_eval = update_def detect_balls_def Let_def TerrainBalls_init_def find_match_code
  sq_dist_def py_index_def pop_def set_position_def get_new_position_def set_time_def
  get_new_time_def Ball_def upt_conv_Cons

lemma one_ball_reached: "run (TerrainBalls_init 0) [([(5, 5)], 1)] = Inr one_ball"
  by (simp add: tracker_eval one_ball_def)

lemma two_balls_reached: "run (TerrainBalls_init 0) [([(5, 5), (50, 50)], 1)] = Inr two_balls"
  by (simp add: tracker_eval two_balls_def)

text \<open>Distances and squared distances compare alike; the start value of the search.\<close>

lemma euclid_less_5000: "euclid c p < 5000 \<longleftrightarrow> sq_dist c p < 25000000"
proof -
  have "sqrt (real_of_int (sq_dist c p)) < sqrt (real_of_int 25000000) \<longleftrightarrow>
        sq_dist c p < 25000000"
    by (simp del: of_int_numeral)
  then show ?thesis by (simp only: euclid_def sqrt_5000)
qed

lemma euclid_le_iff: "euclid c p \<le> euclid d p \<longleftrightarrow> sq_dist c p \<le> sq_dist d p"
  by (simp add: euclid_def)

lemma euclid_less_iff: "euclid c p < euclid d p \<longleftrightarrow> sq_dist c p < sq_dist d p"
  by (simp add: euclid_def)

text \<open>
  \<open>_find_match\<close> raises exactly when the list is not empty and no centre is nearer than
  \<open>5000\<close>; otherwise it returns the first index of least distance.
\<close>

lemma find_match_raises_iff:
  "find_match b cs = Inl e \<longleftrightarrow>
     e = UnboundLocalError \<and> cs \<noteq> [] \<and> (\<forall>c\<in>set cs. 5000 \<le> euclid c (position b))"
proof -
  have "5000 \<le> euclid c (position b) \<longleftrightarrow> 25000000 \<le> sq_dist c (position b)" for c
    using euclid_less_5000 [of c "position b"] by linarith
  then show ?thesis by (simp add: find_match_Inl)
qed

lemma find_match_nearest:
  assumes "find_match b cs = Inr k" and "cs \<noteq> []"
  shows "0 \<le> k \<and> nat k < length cs \<and> euclid (cs ! nat k) (position b) < 5000 \<and>
     (\<forall>l<length cs. euclid (cs ! nat k) (position b) \<le> euclid (cs ! l) (position b)) \<and>
     (\<forall>l<nat k. euclid (cs ! nat k) (position b) < euclid (cs ! l) (position b))"
  using find_match_Inr [OF assms(1)] assms(2)
  by (simp add: euclid_less_5000 euclid_le_iff euclid_less_iff)

text \<open>An update returns when every centre is nearer than \<open>5000\<close> to every ball.\<close>

lemma set_pop: "set (pop cs j) \<subseteq> set cs"
  unfolding pop_def by (auto dest: in_set_takeD in_set_dropD)

lemma match_in_order_returns:
  "(\<forall>b\<in>set bs. \<forall>c\<in>set cs. euclid c (position b) < 5000) \<Longrightarrow>
     \<exists>r. match_in_order bs cs = Inr r"
proof (induction bs arbitrary: cs)
  case Nil
  then show ?case by simp
next
  case (Cons b bs)
  show ?case
  proof (cases "cs = []")
    case True
    then show ?thesis by (simp add: match_in_order_empty)
  next
    case False
    then obtain c where "c \<in> set cs" by (cases cs) auto
    with Cons.prems have "euclid c (position b) < 5000" by simp
    with \<open>c \<in> set cs\<close> have "\<not> (\<forall>c\<in>set cs. 5000 \<le> euclid c (position b))"
      by (metis not_le)
    then obtain k where k: "find_match b cs = Inr k"
      using find_match_raises_iff [of b cs] by (cases "find_match b cs") auto
    from find_match_nonempty [OF False] k have k1: "k \<noteq> - 1" by auto
    from find_match_index [OF k k1] have j: "py_index cs k = Some (nat k)" by simp
    have "\<forall>b\<in>set bs. \<forall>c\<in>set (pop cs (nat k)). euclid c (position b) < 5000"
      using Cons.prems set_pop [of cs "nat k"] by auto
    from Cons.IH [OF this] obtain r where "match_in_order bs (pop cs (nat k)) = Inr r" ..
    with k k1 j show ?thesis by (cases r) simp
  qed
qed

lemma update_returns:
  assumes "tracker_inv s" and "\<forall>b\<in>set (balls s). \<forall>c\<in>set cs. euclid c (position b) < 5000"
  shows "\<exists>s'. update s cs t = Inr s'"
proof -
  from assms(1) have nb: "nb_balls s = length (balls s)" by (simp add: tracker_inv_def)
  from match_in_order_returns [OF assms(2)] obtain r where "match_in_order (balls s) cs = Inr r" ..
  then have "update s cs t \<noteq> Inl e" for e
    using update_Inl [OF nb, of cs t e] by simp
  then show ?thesis by (cases "update s cs t") auto
qed

text \<open>Balls from an index on that keep their position count as unchanged.\<close>

lemma unchanged_positions_tail:
  assumes "length bs' = length bs" and "n \<le> length bs"
    and "\<forall>i. n \<le> i \<and> i < length bs \<longrightarrow> position (bs' ! i) = position (bs ! i)"
  shows "length bs - n \<le> unchanged_positions bs bs'"
proof -
  let ?P = "\<lambda>(b, b'). position b' = position b"
  have z: "zip bs bs' = zip (take n bs) (take n bs') @ zip (drop n bs) (drop n bs')"
    by (metis append_take_drop_id take_zip drop_zip)
  have "\<forall>x\<in>set (zip (drop n bs) (drop n bs')). ?P x"
  proof
    fix x assume "x \<in> set (zip (drop n bs) (drop n bs'))"
    then obtain i where i: "i < length (zip (drop n bs) (drop n bs'))"
      "x = zip (drop n bs) (drop n bs') ! i"
      by (metis in_set_conv_nth)
    then have "i < length bs - n" using assms(1) by simp
    with i(2) assms(1,2) have "x = (bs ! (n + i), bs' ! (n + i))" by simp
    moreover have "position (bs' ! (n + i)) = position (bs ! (n + i))"
      using assms(3) \<open>i < length bs - n\<close> by simp
    ultimately show "?P x" by simp
  qed
  then have "filter ?P (zip (drop n bs) (drop n bs')) = zip (drop n bs) (drop n bs')"
    by (simp add: filter_id_conv)
  then have "length (filter ?P (zip (drop n bs) (drop n bs'))) = length bs - n"
    using assms(1) by simp
  then show ?thesis
    unfolding unchanged_positions_def by (subst z) simp
qed

lemma set_time_comp:
  "ball_id \<circ> (\<lambda>b. set_time b t) = ball_id"
  "position \<circ> (\<lambda>b. set_time b t) = position"
  "time0 \<circ> (\<lambda>b. set_time b t) = time0"
  by (simp_all add: fun_eq_iff set_time_fields)

text \<open>A frame without centres matches nothing and creates nothing.\<close>

lemma update_empty:
  assumes "tracker_inv s"
  shows "update s [] t = Inr (s\<lparr>time := t, balls := map (\<lambda>b. set_time b t) (balls s)\<rparr>)"
proof -
  from assms have nb: "nb_balls s = length (balls s)" by (simp add: tracker_inv_def)
  have "filter_loop [0..<nb_balls s] (balls s) [] = Inr (balls s, [])"
    using filter_loop_all [of "balls s" "[]"] nb by (simp add: match_in_order_empty)
  then show ?thesis by (simp add: update_def detect_balls_def)
qed

text \<open>No update removes a ball.\<close>

lemma update_length_mono:
  assumes "update s cs t = Inr s'" and "tracker_inv s"
  shows "length (balls s) \<le> length (balls s')"
proof -
  from assms(2) have nb: "nb_balls s = length (balls s)" by (simp add: tracker_inv_def)
  from update_Inr [OF assms(1) nb] obtain bs' rest where
    m: "match_in_order (balls s) cs = Inr (bs', rest)" and
    b: "balls s' = map (\<lambda>b. set_time b t)
              (bs' @ (if length (balls s) < length cs
                      then new_balls (length (balls s)) t rest else []))"
    by blast
  from match_in_order_length [OF m] b show ?thesis by simp
qed

lemma run_length_mono:
  "run s frames = Inr s' \<Longrightarrow> tracker_inv s \<Longrightarrow> length (balls s) \<le> length (balls s')"
proof (induction frames arbitrary: s)
  case Nil
  then show ?case by simp
next
  case (Cons f frames)
  obtain cs t where f: "f = (cs, t)" by (cases f)
  from Cons.prems(1) obtain s1 where s1: "update s cs t = Inr s1" "run s1 frames = Inr s'"
    by (auto simp: f split: sum.splits)
  from Cons.IH [OF s1(2) update_inv [OF s1(1) Cons.prems(2)]]
    update_length_mono [OF s1(1) Cons.prems(2)]
  show ?case by simp
qed

lemma sorted_ids: "sorted_wrt (<) (map int [1..<Suc m])"
  by (simp add: sorted_wrt_map del: upt_Suc)

text \<open>
  What holds of every update that returns: the growth phase appends one ball per centre
  the matching left, when there were more centres than balls, and nothing otherwise.
\<close>

lemma set_time_new_balls: "map (\<lambda>b. set_time b t) (new_balls m t cs) = new_balls m t cs"
  by (induction cs arbitrary: m) (simp_all add: Ball_def set_time_def get_new_time_def)

lemma growth_exact:
  assumes "tracker_inv s" and "update s cs t = Inr s'"
  shows "length (balls s') = max (length (balls s)) (length cs) \<and>
         (\<exists>bs' rest. match_in_order (balls s) cs = Inr (bs', rest) \<and>
            length rest = length cs - length (balls s) \<and>
            drop (length (balls s)) (balls s') =
              (if length (balls s) < length cs
               then new_balls (length (balls s)) t rest else []))"
proof -
  from assms(1) have nb: "nb_balls s = length (balls s)" by (simp add: tracker_inv_def)
  from update_Inr [OF assms(2) nb] obtain bs' rest where
    m: "match_in_order (balls s) cs = Inr (bs', rest)" and
    b: "balls s' = map (\<lambda>b. set_time b t)
              (bs' @ (if length (balls s) < length cs
                      then new_balls (length (balls s)) t rest else []))"
    by blast
  from match_in_order_length [OF m]
  have len: "length bs' = length (balls s)" "length rest = length cs - length (balls s)"
    by simp_all
  from b len have "length (balls s') = max (length (balls s)) (length cs)"
    by (simp add: length_new_balls)
  moreover from b len have "drop (length (balls s)) (balls s') =
              (if length (balls s) < length cs
               then new_balls (length (balls s)) t rest else [])"
    by (simp add: set_time_new_balls)
  ultimately show ?thesis using m len by blast
qed

text \<open>
  What holds of every matching that returns: the first ball takes the first centre of
  least distance among those at hand, and the other balls are matched against the rest.
\<close>

lemma matching_nearest_first:
  assumes "match_in_order (b # bs) cs = Inr (ds, cs')" and "cs \<noteq> []"
  shows "\<exists>j bs'. j < length cs \<and>
           (\<forall>l<length cs. euclid (cs ! j) (position b) \<le> euclid (cs ! l) (position b)) \<and>
           (\<forall>l<j. euclid (cs ! j) (position b) < euclid (cs ! l) (position b)) \<and>
           ds = b\<lparr>position := cs ! j\<rparr> # bs' \<and>
           match_in_order bs (pop cs j) = Inr (bs', cs')"
proof -
  from match_in_order_step [OF assms] obtain j bs' where
    j: "j < length cs" "find_match b cs = Inr (int j)"
       "match_in_order bs (pop cs j) = Inr (bs', cs')" "ds = set_position b (cs ! j) # bs'"
    by blast
  from find_match_nearest [OF j(2) assms(2)] j show ?thesis
    by (intro exI [of _ j] exI [of _ bs']) (simp add: set_position_def get_new_position_def)
qed

section \<open>The claims about the tracker\<close>

text \<open>
  C3, as stated: for an update with \<open>n\<close> centres and \<open>m\<close> balls, \<open>n < m\<close>, the
  number of balls is still \<open>m\<close> and exactly \<open>m - n\<close> balls end with their position
  unchanged. The count fails for a ball that is matched to a centre at its own position:
  with balls at \<open>(5, 5)\<close> and \<open>(50, 50)\<close> and the single centre \<open>(5, 5)\<close>, both balls end
  where they were, while \<open>m - n = 1\<close>.
\<close>

theorem unchanged_count_counterexample:
  "tracker_inv two_balls \<and> length (balls two_balls) = 2 \<and> length [(5, 5) :: point] = 1 \<and>
   update two_balls [(5, 5)] 2 = Inr two_balls_after \<and>
   unchanged_positions (balls two_balls) (balls two_balls_after) = 2"
  by (simp add: tracker_inv_def unchanged_positions_def tracker_eval two_balls_def
      two_balls_after_def)

text \<open>
  C3, amended: an update with \<open>n < m\<close> that returns keeps the \<open>m\<close> balls and their
  identifiers; the balls from index \<open>n\<close> on, which are \<open>m - n\<close>, keep their position; the
  first \<open>n\<close> balls take the \<open>n\<close> centres, each centre once. So at least \<open>m - n\<close> balls end
  with their position unchanged.
\<close>

theorem no_shrink:
  assumes inv: "tracker_inv s" and less: "length cs < length (balls s)"
    and upd: "update s cs t = Inr s'"
  shows "length (balls s') = length (balls s) \<and>
         map ball_id (balls s') = map ball_id (balls s) \<and>
         (\<forall>i. length cs \<le> i \<and> i < length (balls s) \<longrightarrow>
              position (balls s' ! i) = position (balls s ! i)) \<and>
         mset (map position (take (length cs) (balls s'))) = mset cs \<and>
         length (balls s) - length cs \<le> unchanged_positions (balls s) (balls s')"
proof -
  from inv have nb: "nb_balls s = length (balls s)" by (simp add: tracker_inv_def)
  from update_Inr [OF upd nb] less obtain bs' rest where
    m: "match_in_order (balls s) cs = Inr (bs', rest)" and
    b: "balls s' = map (\<lambda>b. set_time b t) bs'"
    by auto
  from match_in_order_length [OF m] less
  have len: "length bs' = length (balls s)" and rest: "rest = []" by simp_all
  have pos: "map position (balls s') = map position bs'"
    by (simp add: b set_time_comp)
  have ids: "map ball_id (balls s') = map ball_id (balls s)"
    using match_in_order_ids [OF m] by (simp add: b set_time_comp)
  have tail: "position (balls s' ! i) = position (balls s ! i)"
    if "length cs \<le> i" "i < length (balls s)" for i
  proof -
    have "bs' ! i = drop (length cs) bs' ! (i - length cs)"
      using that len by simp
    also have "\<dots> = drop (length cs) (balls s) ! (i - length cs)"
      using match_in_order_tail [OF m] by simp
    also have "\<dots> = balls s ! i" using that by simp
    finally show ?thesis using that len by (simp add: b set_time_fields)
  qed
  have "mset (map position (take (length cs) bs')) = mset cs"
    using match_in_order_mset [OF m] rest by simp
  then have ms: "mset (map position (take (length cs) (balls s'))) = mset cs"
    by (simp add: b take_map [symmetric] set_time_comp)
  have "length (balls s) - length cs \<le> unchanged_positions (balls s) (balls s')"
    using unchanged_positions_tail [of "balls s'" "balls s" "length cs"] tail less len
    by (simp add: b)
  with len ids tail ms show ?thesis by (simp add: b)
qed

theorem no_shrink_witness:
  "tracker_inv two_balls \<and> length [(5, 5) :: point] < length (balls two_balls) \<and>
   update two_balls [(5, 5)] 2 = Inr two_balls_after \<and>
   length (balls two_balls_after) = 2 \<and>
   map ball_id (balls two_balls_after) = [1, 2] \<and>
   position (balls two_balls_after ! 1) = (50, 50) \<and>
   mset (map position (take 1 (balls two_balls_after))) = {#(5, 5)#}"
proof -
  have 1: "tracker_inv two_balls"
    by (simp add: tracker_inv_def two_balls_def Ball_def)
  have 2: "length [(5, 5) :: point] < length (balls two_balls)"
    by (simp add: two_balls_def)
  have 3: "update two_balls [(5, 5)] 2 = Inr two_balls_after"
    by (simp add: tracker_eval two_balls_def two_balls_after_def)
  from no_shrink [OF 1 2 3] 1 2 3 show ?thesis
    by (simp add: two_balls_after_def)
qed

text \<open>
  C4: over any sequence of updates the identifiers are given once, at creation, and are
  the integers \<open>1, 2, ...\<close> in creation order. For the state \<open>s\<close> after any frames and the
  state \<open>s'\<close> after any later frames: the balls of \<open>s\<close> carry \<open>1, ..., m\<close>; no ball is
  removed; the first \<open>m\<close> balls of \<open>s'\<close> carry the identifiers they had in \<open>s\<close>; the balls of
  \<open>s'\<close> carry \<open>1, ..., m'\<close>, strictly increasing, so that no identifier is used twice.
\<close>

theorem ids_sequential:
  assumes "run (TerrainBalls_init t0) frames = Inr s" and "run s later = Inr s'"
  shows "map ball_id (balls s) = map int [1..<Suc (length (balls s))] \<and>
         length (balls s) \<le> length (balls s') \<and>
         take (length (balls s)) (map ball_id (balls s')) = map ball_id (balls s) \<and>
         map ball_id (balls s') = map int [1..<Suc (length (balls s'))] \<and>
         sorted_wrt (<) (map ball_id (balls s'))"
proof -
  from run_inv [OF assms(1) init_inv] have inv: "tracker_inv s" .
  from run_inv [OF assms(2) inv] have inv': "tracker_inv s'" .
  from inv have ids: "map ball_id (balls s) = map int [1..<Suc (length (balls s))]"
    by (simp add: tracker_inv_def)
  from inv' have ids': "map ball_id (balls s') = map int [1..<Suc (length (balls s'))]"
    by (simp add: tracker_inv_def)
  from run_length_mono [OF assms(2) inv] have le: "length (balls s) \<le> length (balls s')" .
  have "take (length (balls s)) (map int [1..<Suc (length (balls s'))]) =
        map int [1..<Suc (length (balls s))]"
    using le by (simp add: take_map del: upt_Suc)
  with ids ids' have tk: "take (length (balls s)) (map ball_id (balls s')) = map ball_id (balls s)"
    by simp
  from ids' sorted_ids [of "length (balls s')"]
  have "sorted_wrt (<) (map ball_id (balls s'))" by simp
  with ids ids' le tk show ?thesis by simp
qed

theorem ids_sequential_witness:
  "run (TerrainBalls_init 0) [([], 1), ([(5, 5)], 2)] = Inr frame2_state \<and>
   run frame2_state [([(6, 5), (50, 50)], 3)] = Inr frame3_state \<and>
   map ball_id (balls frame2_state) = [1] \<and>
   map ball_id (balls frame3_state) = [1, 2] \<and>
   take 1 (map ball_id (balls frame3_state)) = map ball_id (balls frame2_state)"
proof -
  have 1: "run (TerrainBalls_init 0) [([], 1), ([(5, 5)], 2)] = Inr frame2_state"
    by (simp add: tracker_eval frame2_state_def)
  have 2: "run frame2_state [([(6, 5), (50, 50)], 3)] = Inr frame3_state"
    by (simp add: tracker_eval frame2_state_def frame3_state_def)
  from ids_sequential [OF 1 2] 1 2 show ?thesis
    by (simp add: frame2_state_def frame3_state_def Ball_def)
qed

text \<open>
  C1, at a failing input: a ball at \<open>(5, 5)\<close> and the single centre \<open>(5005, 5)\<close>, at
  distance \<open>5000\<close>. The claim selects that centre as the ball's new position; the update
  raises UnboundLocalError instead, since no iteration of \<open>_find_match\<close> found a distance
  below the start value \<open>5000\<close>. Below that distance the selection is the claimed one
  (\<open>matching_nearest_first\<close>, \<open>match_in_order_empty\<close>).
\<close>

theorem nearest_at_5000_raises:
  "euclid (5005, 5) (position (balls one_ball ! 0)) = 5000 \<and>
   update one_ball [(5005, 5)] 2 = Inl UnboundLocalError"
  by (simp add: tracker_eval one_ball_def euclid_def sqrt_5000 [simplified])

text \<open>
  C2, at a failing input: one ball and two centres, both \<open>5000\<close> or more away from it. The
  claim creates one new ball; the update raises in the matching phase and creates none.
  Every update that returns creates the claimed balls (\<open>growth_exact\<close>).
\<close>

theorem growth_aborted:
  "length (balls one_ball) = 1 \<and> length [(5005, 5), (6000, 7000) :: point] = 2 \<and>
   update one_ball [(5005, 5), (6000, 7000)] 2 = Inl UnboundLocalError"
  by (simp add: tracker_eval one_ball_def)

text \<open>
  C8, at a failing input: a pool of two centres at distances \<open>5000\<close> and \<open>6000\<close> from the
  ball. The claim matches the ball to the nearer one however far it is; \<open>_find_match\<close>
  raises UnboundLocalError. One pixel nearer, the same centre is matched.
\<close>

theorem no_gate_failing_input:
  "find_match (Ball 1 1 (5, 5)) [(4005, 3005), (6005, 5)] = Inl UnboundLocalError \<and>
   find_match (Ball 1 1 (5, 5)) [(4005, 3004), (6005, 5)] = Inr 0"
  by (simp add: tracker_eval)

text \<open>
  C9, at a failing input: a first frame with the centre \<open>(5, 5)\<close>, then a frame with the
  centre \<open>(6005, 5)\<close>. The claim lets no update raise; the second update raises
  UnboundLocalError.
\<close>

theorem update_raises:
  "run (TerrainBalls_init 0) [([(5, 5)], 1), ([(6005, 5)], 2)] = Inl UnboundLocalError"
  by (simp add: tracker_eval)

section \<open>Properties of the robot detector\<close>

text \<open>The two outcomes of \<open>_detect_marker\<close> and of the pose update.\<close>

lemma detect_marker_fails: "length contours \<noteq> 1 \<Longrightarrow> detect_marker mec contours = (None, None)"
  by (simp add: detect_marker_def)

lemma detect_marker_one:
  "length contours = 1 \<Longrightarrow>
     detect_marker mec contours =
       (Some (fst (fst (mec (contours ! 0)))), Some (snd (fst (mec (contours ! 0)))))"
  by (simp add: detect_marker_def Let_def)

lemma pose_update_gate:
  "fst front_m_pos = None \<or> fst rear_m_pos = None \<Longrightarrow>
     pose_update s front_m_pos rear_m_pos t = Inr (s, None)"
  by (auto simp: pose_update_def)

lemma pose_update_both:
  "pose_update s (Some fx, Some fy) (Some rx, Some ry) t =
     Inr (s\<lparr>rd_position := (rx, ry), rd_heading := arctan2 (fy - ry) (fx - rx),
             rd_timestamp := t\<rparr>,
          Some ((rx, ry), arctan2 (fy - ry) (fx - rx), t))"
  by (simp add: pose_update_def)

text \<open>
  \<open>arctan2\<close> is the angle of the polar form: for a vector other than the null vector it
  lies in \<open>(-\<pi>, \<pi>]\<close> and gives the vector back from its length.
\<close>

lemma sqrt_slope:
  fixes x y :: real
  assumes "x \<noteq> 0"
  shows "sqrt (1 + (y / x)\<^sup>2) = sqrt (x\<^sup>2 + y\<^sup>2) / \<bar>x\<bar>"
proof -
  have "1 + (y / x)\<^sup>2 = (x\<^sup>2 + y\<^sup>2) / x\<^sup>2"
    using assms by (simp add: field_simps)
  then show ?thesis by (simp add: real_sqrt_divide)
qed

lemma radius_pos:
  fixes x y :: real
  assumes "x \<noteq> 0 \<or> y \<noteq> 0"
  shows "0 < sqrt (x\<^sup>2 + y\<^sup>2)"
  using assms by (simp add: sum_power2_gt_zero_iff)

lemma polar_arctan:
  fixes x y :: real
  assumes "x \<noteq> 0"
  shows "sqrt (x\<^sup>2 + y\<^sup>2) * cos (arctan (y / x)) = \<bar>x\<bar>"
    and "sqrt (x\<^sup>2 + y\<^sup>2) * sin (arctan (y / x)) = \<bar>x\<bar> * (y / x)"
proof -
  have r: "0 < sqrt (x\<^sup>2 + y\<^sup>2)" using assms radius_pos [of x y] by blast
  show "sqrt (x\<^sup>2 + y\<^sup>2) * cos (arctan (y / x)) = \<bar>x\<bar>"
    using r assms by (simp add: cos_arctan sqrt_slope)
  show "sqrt (x\<^sup>2 + y\<^sup>2) * sin (arctan (y / x)) = \<bar>x\<bar> * (y / x)"
    using r assms by (simp add: sin_arctan sqrt_slope)
qed

lemma arctan2_polar:
  assumes "x \<noteq> 0 \<or> y \<noteq> 0"
  shows "- pi < arctan2 y x \<and> arctan2 y x \<le> pi \<and>
         sqrt (x\<^sup>2 + y\<^sup>2) * cos (arctan2 y x) = x \<and>
         sqrt (x\<^sup>2 + y\<^sup>2) * sin (arctan2 y x) = y"
proof -
  have lo: "- (pi / 2) < arctan (y / x)" and hi: "arctan (y / x) < pi / 2"
    by (rule arctan_lbound, rule arctan_ubound)
  consider (right) "0 < x" | (upper) "x < 0" "0 \<le> y" | (lower) "x < 0" "y < 0"
    | (up) "x = 0" "0 < y" | (down) "x = 0" "y < 0"
    using assms by linarith
  then show ?thesis
  proof cases
    case right
    then have a: "arctan2 y x = arctan (y / x)" by (simp add: arctan2_def)
    have "- pi < arctan2 y x \<and> arctan2 y x \<le> pi"
      using lo hi pi_gt_zero unfolding a by linarith
    moreover have "sqrt (x\<^sup>2 + y\<^sup>2) * cos (arctan2 y x) = x"
      "sqrt (x\<^sup>2 + y\<^sup>2) * sin (arctan2 y x) = y"
      using right polar_arctan [of x y] by (simp_all add: a)
    ultimately show ?thesis by simp
  next
    case upper
    then have a: "arctan2 y x = arctan (y / x) + pi" by (simp add: arctan2_def)
    from upper have "y / x \<le> 0" by (simp add: divide_nonneg_neg)
    then have "arctan (y / x) \<le> 0" by simp
    then have "- pi < arctan2 y x \<and> arctan2 y x \<le> pi"
      using lo pi_gt_zero unfolding a by linarith
    moreover have "sqrt (x\<^sup>2 + y\<^sup>2) * cos (arctan2 y x) = x"
      "sqrt (x\<^sup>2 + y\<^sup>2) * sin (arctan2 y x) = y"
      using upper polar_arctan [of x y] by (simp_all add: a)
    ultimately show ?thesis by simp
  next
    case lower
    then have a: "arctan2 y x = arctan (y / x) - pi" by (simp add: arctan2_def)
    from lower have "0 < y / x" by (simp add: divide_neg_neg)
    then have "0 < arctan (y / x)" by simp
    then have "- pi < arctan2 y x \<and> arctan2 y x \<le> pi"
      using hi pi_gt_zero unfolding a by linarith
    moreover have "sqrt (x\<^sup>2 + y\<^sup>2) * cos (arctan2 y x) = x"
      "sqrt (x\<^sup>2 + y\<^sup>2) * sin (arctan2 y x) = y"
      using lower polar_arctan [of x y] by (simp_all add: a)
    ultimately show ?thesis by simp
  next
    case up
    have "- pi < pi / 2 \<and> pi / 2 \<le> pi" using pi_gt_zero by linarith
    with up show ?thesis by (simp add: arctan2_def)
  next
    case down
    have "- pi < - (pi / 2) \<and> - (pi / 2) \<le> pi" using pi_gt_zero by linarith
    with down show ?thesis by (simp add: arctan2_def)
  qed
qed

lemma arctan2_east: "arctan2 0 10 = 0"
  by (simp add: arctan2_def)

lemma arctan2_north: "arctan2 (- 10) 0 = - (pi / 2)"
  by (simp add: arctan2_def)

text \<open>Frames in which a marker is missing or ambiguous leave the detector as it is.\<close>

lemma rd_run_no_pose:
  "\<forall>(black, blue, t)\<in>set frames. length black \<noteq> 1 \<or> length blue \<noteq> 1 \<Longrightarrow>
     rd_run mec s frames = Inr s"
proof (induction frames)
  case Nil
  then show ?case by simp
next
  case (Cons f frames)
  obtain black blue t where f: "f = (black, blue, t)" by (cases f)
  with Cons.prems have "length black \<noteq> 1 \<or> length blue \<noteq> 1" by simp
  then have "camera_data_updated_callback mec s black blue t = Inr (s, None)"
    unfolding camera_data_updated_callback_def Let_def
    by (intro pose_update_gate) (auto simp: detect_marker_fails)
  with Cons show ?case by (simp add: f)
qed

section \<open>The claims about the robot detector\<close>

text \<open>
  C5: when the front or the rear marker is not detected (its mask has no contour or
  more than one), the callback returns the detector unchanged, position, heading and
  time stamp, and does not call \<open>data_updated_callback\<close>; a callback that changes the
  detector or calls \<open>data_updated_callback\<close> had both markers detected.
\<close>

theorem pose_gating:
  "(length black_contours \<noteq> 1 \<or> length blue_contours \<noteq> 1 \<longrightarrow>
      camera_data_updated_callback mec s black_contours blue_contours t = Inr (s, None)) \<and>
   (camera_data_updated_callback mec s black_contours blue_contours t = Inr (s', out) \<and>
      (s' \<noteq> s \<or> out \<noteq> None) \<longrightarrow>
      length black_contours = 1 \<and> length blue_contours = 1)"
proof -
  have 1: "camera_data_updated_callback mec s black_contours blue_contours t = Inr (s, None)"
    if "length black_contours \<noteq> 1 \<or> length blue_contours \<noteq> 1"
    using that unfolding camera_data_updated_callback_def Let_def
    by (intro pose_update_gate) (auto simp: detect_marker_fails)
  show ?thesis
  proof (cases "length black_contours \<noteq> 1 \<or> length blue_contours \<noteq> 1")
    case True
    from 1 [OF True] True show ?thesis by auto
  next
    case False
    then show ?thesis by simp
  qed
qed

theorem pose_gating_witness:
  "camera_data_updated_callback circle_of_centre RobotDetector_init [] [(3, 4)] 7 =
     Inr (RobotDetector_init, None) \<and>
   camera_data_updated_callback circle_of_centre RobotDetector_init [(1, 2), (5, 6)] [(3, 4)] 7 =
     Inr (RobotDetector_init, None) \<and>
   camera_data_updated_callback circle_of_centre RobotDetector_init [(10, 0)] [(3, 4)] 7 =
     Inr (\<lparr>rd_position = (3, 4), rd_heading = arctan2 (0 - 4) (10 - 3), rd_timestamp = 7\<rparr>,
          Some ((3, 4), arctan2 (0 - 4) (10 - 3), 7)) \<and>
   length [(10, 0) :: real \<times> real] = 1 \<and> length [(3, 4) :: real \<times> real] = 1"
proof -
  let ?mec = circle_of_centre
  have 3: "camera_data_updated_callback ?mec RobotDetector_init [(10, 0)] [(3, 4)] 7 =
     Inr (\<lparr>rd_position = (3, 4), rd_heading = arctan2 (0 - 4) (10 - 3), rd_timestamp = 7\<rparr>,
          Some ((3, 4), arctan2 (0 - 4) (10 - 3), 7))"
    by (simp add: camera_data_updated_callback_def detect_marker_def pose_update_def
        RobotDetector_init_def circle_of_centre_def)
  have ne: "\<lparr>rd_position = (3, 4), rd_heading = arctan2 (0 - 4) (10 - 3), rd_timestamp = 7\<rparr>
      \<noteq> RobotDetector_init"
    by (simp add: RobotDetector_init_def)
  from pose_gating [of "[]" "[(3, 4)]" ?mec RobotDetector_init 7]
    pose_gating [of "[(1, 2), (5, 6)]" "[(3, 4)]" ?mec RobotDetector_init 7]
    pose_gating [of "[(10, 0)]" "[(3, 4)]" ?mec RobotDetector_init 7, THEN conjunct2] 3 ne
  show ?thesis by simp
qed



text \<open>
  C7: with both markers detected the stored and published position is the rear marker's
  point and the heading is \<open>arctan2 (front.y - rear.y) (front.x - rear.x)\<close>; the front
  marker \<open>(10, 0)\<close> over the rear marker \<open>(0, 0)\<close> gives the heading \<open>0\<close>, the front
  marker \<open>(0, -10)\<close> gives \<open>-\<pi>/2\<close>.
\<close>

theorem heading_from_markers:
  "pose_update s (Some fx, Some fy) (Some rx, Some ry) t =
     Inr (s\<lparr>rd_position := (rx, ry), rd_heading := arctan2 (fy - ry) (fx - rx),
             rd_timestamp := t\<rparr>,
          Some ((rx, ry), arctan2 (fy - ry) (fx - rx), t)) \<and>
   camera_data_updated_callback mec s [front] [rear] t =
     pose_update s (Some (fst (fst (mec front))), Some (snd (fst (mec front))))
       (Some (fst (fst (mec rear))), Some (snd (fst (mec rear)))) t \<and>
   pose_update s (Some 10, Some 0) (Some 0, Some 0) t =
     Inr (s\<lparr>rd_position := (0, 0), rd_heading := 0, rd_timestamp := t\<rparr>,
          Some ((0, 0), 0, t)) \<and>
   pose_update s (Some 0, Some (- 10)) (Some 0, Some 0) t =
     Inr (s\<lparr>rd_position := (0, 0), rd_heading := - (pi / 2), rd_timestamp := t\<rparr>,
          Some ((0, 0), - (pi / 2), t))"
  by (simp add: pose_update_both arctan2_east arctan2_north camera_data_updated_callback_def
      detect_marker_one)

text \<open>
  C10: as long as no frame has had both markers detected, the detector is in its initial
  state: \<open>get_position\<close> returns \<open>(0, 0)\<close>, \<open>get_heading\<close> returns \<open>0\<close> and the time stamp
  is \<open>0\<close>.
\<close>

theorem initial_pose_before_first_detection:
  assumes "\<forall>(black, blue, t)\<in>set frames. length black \<noteq> 1 \<or> length blue \<noteq> 1"
  shows "\<exists>s. rd_run mec RobotDetector_init frames = Inr s \<and>
           get_position s = (0, 0) \<and> get_heading s = 0 \<and> rd_timestamp s = 0"
  using rd_run_no_pose [OF assms, of mec RobotDetector_init]
  by (simp add: get_position_def get_heading_def RobotDetector_init_def)

theorem initial_pose_before_first_detection_witness:
  "rd_run circle_of_centre RobotDetector_init
     [([], [(3, 4)], 1), ([(10, 0)], [(3, 4), (30, 40)], 2)] = Inr RobotDetector_init \<and>
   get_position RobotDetector_init = (0, 0) \<and> get_heading RobotDetector_init = 0 \<and>
   rd_timestamp RobotDetector_init = 0"
proof -
  let ?frames = "[([], [(3, 4)], 1), ([(10, 0)], [(3, 4), (30, 40)], 2)]
                   :: ((real \<times> real) list \<times> (real \<times> real) list \<times> int) list"
  have h: "\<forall>(black, blue, t)\<in>set ?frames. length black \<noteq> 1 \<or> length blue \<noteq> 1"
    by simp
  from initial_pose_before_first_detection [OF h, of circle_of_centre]
  obtain s where s: "rd_run circle_of_centre RobotDetector_init ?frames = Inr s"
    "get_position s = (0, 0)" "get_heading s = 0" "rd_timestamp s = 0"
    by blast
  have "s = RobotDetector_init"
    using s by (simp add: get_position_def get_heading_def RobotDetector_init_def)
  with s show ?thesis by simp
qed

end
